theory Spec2Isabelle
  imports Main "HOL-Library.Word"
begin

unbundle bit_operations_syntax

section \<open>Data model: packet\_types.h (src/unnamed/part\_000)\<close>

type_synonym u8 = "8 word"
type_synonym u16 = "16 word"
type_synonym u32 = "32 word"
type_synonym u64 = "64 word"

text \<open>Configuration constants of namespace \<open>Config\<close>.\<close>

definition MAX_BUF :: int where
  "MAX_BUF = 2048"

definition SKIP_HEARTBEATS :: bool where
  "SKIP_HEARTBEATS = True"

definition STATS_INTERVAL :: u64 where
  "STATS_INTERVAL = 100000"

definition FLUSH_INTERVAL :: u64 where
  "FLUSH_INTERVAL = 1000000"

text \<open>\<open>enum class PacketType : uint8_t\<close>.\<close>

datatype PacketType = HEARTBEAT | ADMIN | UNSEQUENCED | DATA

text \<open>
  \<open>enum class OrderStatus : uint8_t\<close>. The enumerator \<open>OrderStatus::UNSEQUENCED\<close> is
  written \<open>ORDER_UNSEQUENCED\<close> here, since \<open>PacketType\<close> already has a constructor of
  that name.
\<close>

datatype OrderStatus =
    ORDER_UNSEQUENCED
  | SEQUENCED_FIRST
  | SEQUENCED_IN_ORDER
  | SEQUENCED_OUT_OF_ORDER_LATE
  | SEQUENCED_OUT_OF_ORDER_EARLY
  | SEQUENCED_DUPLICATE

text \<open>The enumerators' underlying \<open>uint8_t\<close> values, as \<open>static_cast<uint8_t>\<close> reads them.\<close>

fun packet_type_code :: "PacketType \<Rightarrow> u8" where
  "packet_type_code HEARTBEAT = 0"
| "packet_type_code ADMIN = 1"
| "packet_type_code UNSEQUENCED = 2"
| "packet_type_code DATA = 3"

fun order_status_code :: "OrderStatus \<Rightarrow> u8" where
  "order_status_code ORDER_UNSEQUENCED = 0"
| "order_status_code SEQUENCED_FIRST = 1"
| "order_status_code SEQUENCED_IN_ORDER = 2"
| "order_status_code SEQUENCED_OUT_OF_ORDER_LATE = 3"
| "order_status_code SEQUENCED_OUT_OF_ORDER_EARLY = 4"
| "order_status_code SEQUENCED_DUPLICATE = 5"

section \<open>Packet classification: src/packet\_types.cpp\<close>

text \<open>
  \<open>classify_packet_type(uint32_t seq, uint8_t count, int len)\<close>. The length is a C
  \<open>int\<close>; it is only compared with 20, so it is modelled as an \<open>int\<close>.
\<close>

definition classify_packet_type :: "u32 \<Rightarrow> u8 \<Rightarrow> int \<Rightarrow> PacketType" where
  "classify_packet_type seq count len =
     (if seq = 0 then
        (if count = 0 \<and> len \<le> 20 then HEARTBEAT
         else if count = 0 then ADMIN
         else UNSEQUENCED)
      else DATA)"

section \<open>Per-channel sequence tracking: sequence\_tracker.cpp (in src/main\_zmq.cpp)\<close>

text \<open>
  \<open>struct SequenceTracker\<close>. The pending sequences are a \<open>std::map<uint32_t, bool>\<close>,
  modelled as a partial map; \<open>find(k) != end()\<close> is \<open>pending k \<noteq> None\<close>.
\<close>

record SequenceTracker =
  last_confirmed_seq :: u32
  highest_seen_seq :: u32
  pending_sequences :: "u32 \<rightharpoonup> bool"

text \<open>The default-constructed tracker that \<open>trackers_[key]\<close> inserts for a new key.\<close>

definition new_tracker :: SequenceTracker where
  "new_tracker =
     \<lparr>last_confirmed_seq = 0, highest_seen_seq = 0, pending_sequences = Map.empty\<rparr>"

text \<open>\<open>std::map<std::pair<int, int>, SequenceTracker> trackers_\<close>.\<close>

type_synonym trackers = "(int \<times> int) \<rightharpoonup> SequenceTracker"

definition UINT32_MAX :: u32 where
  "UINT32_MAX = 0xFFFFFFFF"

text \<open>
  The message count that \<open>determine_order_status\<close> works with: \<open>count\<close> read as at
  least 1, and reduced to 1 by the overflow check. All arithmetic is \<open>uint32_t\<close>.
\<close>

definition effective_count :: "u32 \<Rightarrow> u8 \<Rightarrow> u32" where
  "effective_count seq count =
     (let message_count = (if count > 0 then ucast count else 1)
      in if seq > UINT32_MAX - message_count + 1 then 1 else message_count)"

text \<open>
  The inner \<open>while\<close> loop: advance \<open>confirmed_end\<close> as long as its successor is
  pending. The successor wraps around, and the loop does not end when every
  \<open>uint32_t\<close> is pending, so the result is optional: \<open>None\<close> is a loop that runs forever.
\<close>

partial_function (option) scan_confirmed_end :: "(u32 \<rightharpoonup> bool) \<Rightarrow> u32 \<Rightarrow> u32 option" where
  "scan_confirmed_end pending confirmed_end =
     (if pending (confirmed_end + 1) \<noteq> None
      then scan_confirmed_end pending (confirmed_end + 1)
      else Some confirmed_end)"

text \<open>
  The loop \<open>for (uint32_t s = next_expected; s <= confirmed_end; s++) erase(s)\<close>.
  With \<open>confirmed_end = UINT32_MAX\<close> the condition never fails: \<open>None\<close> again.
\<close>

partial_function (option) erase_run ::
    "(u32 \<rightharpoonup> bool) \<Rightarrow> u32 \<Rightarrow> u32 \<Rightarrow> (u32 \<rightharpoonup> bool) option" where
  "erase_run pending s confirmed_end =
     (if s \<le> confirmed_end
      then erase_run (pending(s := None)) (s + 1) confirmed_end
      else Some pending)"

text \<open>The outer \<open>while (true)\<close> loop that confirms pending sequences.\<close>

partial_function (option) confirm_pending :: "SequenceTracker \<Rightarrow> SequenceTracker option" where
  "confirm_pending tracker =
     (let next_expected = last_confirmed_seq tracker + 1 in
      if pending_sequences tracker next_expected \<noteq> None then
        (case scan_confirmed_end (pending_sequences tracker) next_expected of
           None \<Rightarrow> None
         | Some confirmed_end \<Rightarrow>
             (case erase_run (pending_sequences tracker) next_expected confirmed_end of
                None \<Rightarrow> None
              | Some pending' \<Rightarrow>
                  confirm_pending (tracker\<lparr>last_confirmed_seq := confirmed_end,
                                           pending_sequences := pending'\<rparr>)))
      else Some tracker)"

text \<open>The loop \<open>for (i = 0; i < message_count; i++) pending_sequences[seq + i] = true\<close>.\<close>

definition mark_pending :: "(u32 \<rightharpoonup> bool) \<Rightarrow> u32 \<Rightarrow> u32 \<Rightarrow> (u32 \<rightharpoonup> bool)" where
  "mark_pending pending seq message_count =
     fold (\<lambda>i m. m(seq + of_nat i \<mapsto> True)) [0..<unat message_count] pending"

text \<open>
  The body of \<open>determine_order_status\<close> on the tracker of one channel (the reference
  \<open>auto& tracker = trackers_[key]\<close>), for \<open>seq \<noteq> 0\<close>: the verdict and the updated tracker.
\<close>

definition track :: "u32 \<Rightarrow> u8 \<Rightarrow> SequenceTracker \<Rightarrow> (OrderStatus \<times> SequenceTracker) option" where
  "track seq count tracker =
     (let message_count = effective_count seq count in
      if last_confirmed_seq tracker = 0 \<and> highest_seen_seq tracker = 0 then
        Some (SEQUENCED_FIRST,
              tracker\<lparr>last_confirmed_seq := seq + message_count - 1,
                      highest_seen_seq := seq + message_count - 1\<rparr>)
      else
        let expected = last_confirmed_seq tracker + 1 in
        if seq = expected then
          (case confirm_pending (tracker\<lparr>last_confirmed_seq := seq + message_count - 1\<rparr>) of
             None \<Rightarrow> None
           | Some tracker' \<Rightarrow> Some (SEQUENCED_IN_ORDER, tracker'))
        else if seq < expected then
          Some (if seq \<le> last_confirmed_seq tracker then SEQUENCED_DUPLICATE
                else SEQUENCED_OUT_OF_ORDER_LATE, tracker)
        else
          Some (SEQUENCED_OUT_OF_ORDER_EARLY,
                tracker\<lparr>pending_sequences :=
                          mark_pending (pending_sequences tracker) seq message_count,
                        highest_seen_seq :=
                          max (highest_seen_seq tracker) (seq + message_count - 1)\<rparr>))"

text \<open>
  \<open>SequenceManager::determine_order_status(seq, count, port, unit)\<close> on the manager's
  map. A packet with \<open>seq = 0\<close> returns before the map is touched; any other packet
  creates the channel's entry if it is missing.
\<close>

definition determine_order_status ::
    "u32 \<Rightarrow> u8 \<Rightarrow> int \<Rightarrow> u8 \<Rightarrow> trackers \<Rightarrow> (OrderStatus \<times> trackers) option" where
  "determine_order_status seq count port unit trackers =
     (if seq = 0 then Some (ORDER_UNSEQUENCED, trackers)
      else
        let key = (port, uint unit);
            tracker = (case trackers key of None \<Rightarrow> new_tracker | Some t \<Rightarrow> t)
        in case track seq count tracker of
             None \<Rightarrow> None
           | Some (status, tracker') \<Rightarrow> Some (status, trackers(key \<mapsto> tracker')))"

text \<open>\<open>SequenceManager::get_tracker\<close>: the channel's tracker, or \<open>nullptr\<close>.\<close>

definition get_tracker :: "trackers \<Rightarrow> int \<Rightarrow> u8 \<Rightarrow> SequenceTracker option" where
  "get_tracker trackers port unit = trackers (port, uint unit)"

text \<open>
  A sequence of calls \<open>(seq, count, port, unit)\<close> to \<open>determine_order_status\<close>, in
  order: the verdicts returned and the manager's final map.
\<close>

fun run_calls ::
    "(u32 \<times> u8 \<times> int \<times> u8) list \<Rightarrow> trackers \<Rightarrow> (OrderStatus list \<times> trackers) option" where
  "run_calls [] trackers = Some ([], trackers)"
| "run_calls ((seq, count, port, unit) # calls) trackers =
     (case determine_order_status seq count port unit trackers of
        None \<Rightarrow> None
      | Some (status, trackers') \<Rightarrow>
          (case run_calls calls trackers' of
             None \<Rightarrow> None
           | Some (statuses, trackers'') \<Rightarrow> Some (status # statuses, trackers'')))"

text \<open>What the claims observe of a channel: confirmed mark, highest seen, pending keys.\<close>

definition channel_state :: "SequenceTracker \<Rightarrow> u32 \<times> u32 \<times> u32 set" where
  "channel_state tracker =
     (last_confirmed_seq tracker, highest_seen_seq tracker, dom (pending_sequences tracker))"

text \<open>The verdicts of a run together with the final state of the channel \<open>(port, unit)\<close>.\<close>

definition observe ::
    "int \<Rightarrow> u8 \<Rightarrow> (OrderStatus list \<times> trackers) option
     \<Rightarrow> (OrderStatus list \<times> (u32 \<times> u32 \<times> u32 set) option) option" where
  "observe port unit result =
     map_option (\<lambda>(statuses, trackers).
        (statuses, map_option channel_state (get_tracker trackers port unit))) result"

section \<open>Packet header and validation: packet\_processor.cpp (in src/zmq\_bridge.cpp)\<close>

text \<open>
  \<open>struct CboeSequencedUnitHeader\<close>, packed: \<open>hdr_length\<close> at offset 0, \<open>hdr_count\<close> at 2,
  \<open>hdr_unit\<close> at 3, \<open>hdr_sequence\<close> at 4; eight bytes in all.
\<close>

record CboeSequencedUnitHeader =
  hdr_length :: u16
  hdr_count :: u8
  hdr_unit :: u8
  hdr_sequence :: u32

text \<open>
  The value of a little-endian byte sequence. Reading a multi-byte field through the
  header pointer and passing it to \<open>le16toh_safe\<close> or \<open>le32toh_safe\<close> gives this value
  on a host of either byte order.
\<close>

fun le_value :: "u8 list \<Rightarrow> 'a::len word" where
  "le_value [] = 0"
| "le_value (b # bs) = ucast b OR push_bit 8 (le_value bs)"

text \<open>
  The header read through \<open>reinterpret_cast<const CboeSequencedUnitHeader*>(buffer)\<close>.
  A packet is a list of bytes; a buffer of fewer than eight bytes makes the read
  undefined, which is \<open>None\<close>.
\<close>

definition read_header :: "u8 list \<Rightarrow> CboeSequencedUnitHeader option" where
  "read_header buffer =
     (if length buffer < 8 then None
      else Some \<lparr>hdr_length = le_value (take 2 buffer),
                 hdr_count = buffer ! 2,
                 hdr_unit = buffer ! 3,
                 hdr_sequence = le_value (take 4 (drop 4 buffer))\<rparr>)"

definition INT_MAX :: int where
  "INT_MAX = 2147483647"

text \<open>
  \<open>PacketProcessor::validate_packet(buffer, len)\<close>. The comparisons are made in \<open>int\<close>;
  \<open>len + 100\<close> is a signed addition, undefined when it exceeds \<open>INT_MAX\<close>: \<open>None\<close>.
\<close>

definition validate_packet :: "u8 list \<Rightarrow> int \<Rightarrow> bool option" where
  "validate_packet buffer len =
     (if len < 8 then Some False
      else case read_header buffer of
        None \<Rightarrow> None
      | Some header \<Rightarrow>
          let declared_length = hdr_length header in
          if declared_length = 0 \<or> uint declared_length > MAX_BUF then Some False
          else if INT_MAX < len + 100 then None
          else if uint declared_length > len + 100 then Some False
          else Some True)"

section \<open>Binary journal: binary\_logger.cpp (in src/packet\_types.cpp)\<close>

text \<open>
  \<open>struct BinaryLogRecord\<close>, packed, in declaration order. Each field \<open>f\<close> of the
  struct is \<open>rec_f\<close> here, which leaves the short names free for parameters.
\<close>

record BinaryLogRecord =
  rec_timestamp_ns :: u64
  rec_packet_id :: u32
  rec_sequence :: u32
  rec_src_ip :: u32
  rec_port :: u16
  rec_length :: u16
  rec_count :: u8
  rec_unit :: u8
  rec_packet_type :: u8
  rec_order_status :: u8
  rec_payload_length :: u16

text \<open>The \<open>n\<close> bytes of a value in memory on a little-endian host, lowest first.\<close>

fun le_bytes :: "nat \<Rightarrow> 'a::len word \<Rightarrow> u8 list" where
  "le_bytes 0 w = []"
| "le_bytes (Suc n) w = ucast w # le_bytes n (drop_bit 8 w)"

text \<open>
  The object representation that \<open>reinterpret_cast<const char*>(&record)\<close> exposes:
  the fields in declaration order without padding (the struct is packed), each in
  the byte order of a little-endian host.
\<close>

definition record_bytes :: "BinaryLogRecord \<Rightarrow> u8 list" where
  "record_bytes r =
     le_bytes 8 (rec_timestamp_ns r)
     @ le_bytes 4 (rec_packet_id r)
     @ le_bytes 4 (rec_sequence r)
     @ le_bytes 4 (rec_src_ip r)
     @ le_bytes 2 (rec_port r)
     @ le_bytes 2 (rec_length r)
     @ [rec_count r, rec_unit r, rec_packet_type r, rec_order_status r]
     @ le_bytes 2 (rec_payload_length r)"

text \<open>
  The logger's observable state: the entries handed to the binary logger, the lines
  handed to the console logger, and the number of flush requests.
\<close>

datatype console_line =
    LoggingInitialized
  | ProcessorInitialized
  | InvalidPacketWarning int
  | PerformanceReport

record BinaryLogger =
  binary_entries :: "u8 list list"
  console_lines :: "console_line list"
  flush_requests :: nat

text \<open>
  \<open>BinaryLogger::log_packet\<close>. The clock reading \<open>now\<close> is an input. Appending
  \<open>payload_length\<close> bytes from a shorter buffer is undefined: \<open>None\<close>.
\<close>

definition log_packet ::
    "u64 \<Rightarrow> u32 \<Rightarrow> u16 \<Rightarrow> u8 list \<Rightarrow> u16 \<Rightarrow> u32 \<Rightarrow> u8 \<Rightarrow> u8 \<Rightarrow> PacketType \<Rightarrow> OrderStatus
     \<Rightarrow> u32 \<Rightarrow> BinaryLogger \<Rightarrow> BinaryLogger option" where
  "log_packet now packet_id port buffer len sequence count unit packet_type order_status src_ip
       logger =
     (let payload_length = min len 256;
          rec = \<lparr>rec_timestamp_ns = now,
                 rec_packet_id = packet_id,
                 rec_sequence = sequence,
                 rec_src_ip = src_ip,
                 rec_port = port,
                 rec_length = len,
                 rec_count = count,
                 rec_unit = unit,
                 rec_packet_type = packet_type_code packet_type,
                 rec_order_status = order_status_code order_status,
                 rec_payload_length = payload_length\<rparr>
      in if length buffer < unat (rec_payload_length rec) then None
         else
           let log_entry = record_bytes rec @ take (unat (rec_payload_length rec)) buffer
           in Some (logger\<lparr>binary_entries := binary_entries logger @ [log_entry]\<rparr>))"

definition log_warning :: "console_line \<Rightarrow> BinaryLogger \<Rightarrow> BinaryLogger" where
  "log_warning line logger = logger\<lparr>console_lines := console_lines logger @ [line]\<rparr>"

definition log_info :: "console_line \<Rightarrow> BinaryLogger \<Rightarrow> BinaryLogger" where
  "log_info line logger = logger\<lparr>console_lines := console_lines logger @ [line]\<rparr>"

definition flush :: "BinaryLogger \<Rightarrow> BinaryLogger" where
  "flush logger = logger\<lparr>flush_requests := Suc (flush_requests logger)\<rparr>"

section \<open>The packet processor: packet\_processor.cpp (in src/zmq\_bridge.cpp)\<close>

text \<open>\<open>PacketProcessor::Statistics\<close>; the counters are \<open>uint64_t\<close>. The start time is left out.\<close>

record Statistics =
  total_packets :: u64
  heartbeats_skipped :: u64
  data_packets :: u64
  admin_packets :: u64
  unsequenced_packets :: u64
  out_of_order_packets :: u64
  duplicate_packets :: u64

text \<open>
  The members \<open>logger_\<close>, \<open>sequence_manager_\<close> and \<open>stats_\<close> of \<open>PacketProcessor\<close>
  (a name cannot end in an underscore here).
\<close>

record PacketProcessor =
  pp_logger :: BinaryLogger
  pp_sequence_manager :: trackers
  pp_stats :: Statistics

text \<open>
  The processor after its constructor: zero counters, no channel, and the two console
  lines of the logger's and the processor's initialisation.
\<close>

definition new_processor :: PacketProcessor where
  "new_processor =
     \<lparr>pp_logger = \<lparr>binary_entries = [],
                   console_lines = [LoggingInitialized, ProcessorInitialized],
                   flush_requests = 0\<rparr>,
      pp_sequence_manager = Map.empty,
      pp_stats = \<lparr>total_packets = 0, heartbeats_skipped = 0, data_packets = 0,
                 admin_packets = 0, unsequenced_packets = 0, out_of_order_packets = 0,
                 duplicate_packets = 0\<rparr>\<rparr>"

text \<open>
  One call of \<open>process_packet(packet_id, port, buffer, len, src_ip)\<close> with what it reads
  from its environment: \<open>pkt_src_ip\<close> is the value \<open>ip_to_binary\<close> gives for the source
  address string, \<open>pkt_now\<close> the clock reading taken in \<open>log_packet\<close>.
\<close>

record Packet =
  pkt_id :: int
  pkt_port :: int
  pkt_buffer :: "u8 list"
  pkt_len :: int
  pkt_src_ip :: u32
  pkt_now :: u64

text \<open>The first \<open>switch\<close> of \<open>process_packet\<close>, apart from the heartbeat's early return.\<close>

fun count_packet_type :: "PacketType \<Rightarrow> Statistics \<Rightarrow> Statistics" where
  "count_packet_type HEARTBEAT st = st"
| "count_packet_type DATA st = st\<lparr>data_packets := data_packets st + 1\<rparr>"
| "count_packet_type ADMIN st = st\<lparr>admin_packets := admin_packets st + 1\<rparr>"
| "count_packet_type UNSEQUENCED st = st\<lparr>unsequenced_packets := unsequenced_packets st + 1\<rparr>"

text \<open>The second \<open>switch\<close>: out-of-order and duplicate counters.\<close>

fun count_order_status :: "OrderStatus \<Rightarrow> Statistics \<Rightarrow> Statistics" where
  "count_order_status SEQUENCED_OUT_OF_ORDER_EARLY st =
     st\<lparr>out_of_order_packets := out_of_order_packets st + 1\<rparr>"
| "count_order_status SEQUENCED_OUT_OF_ORDER_LATE st =
     st\<lparr>out_of_order_packets := out_of_order_packets st + 1\<rparr>"
| "count_order_status SEQUENCED_DUPLICATE st =
     st\<lparr>duplicate_packets := duplicate_packets st + 1\<rparr>"
| "count_order_status _ st = st"

definition should_report_statistics :: "PacketProcessor \<Rightarrow> bool" where
  "should_report_statistics pp \<longleftrightarrow>
     total_packets (pp_stats pp) mod STATS_INTERVAL = 0 \<and> total_packets (pp_stats pp) > 0"

definition print_performance_report :: "PacketProcessor \<Rightarrow> PacketProcessor" where
  "print_performance_report pp = pp\<lparr>pp_logger := log_info PerformanceReport (pp_logger pp)\<rparr>"

definition flush_logs :: "PacketProcessor \<Rightarrow> PacketProcessor" where
  "flush_logs pp = pp\<lparr>pp_logger := flush (pp_logger pp)\<rparr>"

text \<open>
  \<open>PacketProcessor::process_packet\<close>. \<open>None\<close> is a call with undefined behaviour or one
  that does not return (see \<open>validate_packet\<close>, \<open>confirm_pending\<close> and \<open>log_packet\<close>).
\<close>

definition process_packet :: "Packet \<Rightarrow> PacketProcessor \<Rightarrow> PacketProcessor option" where
  "process_packet p pp0 =
     (let pp = pp0\<lparr>pp_stats := (pp_stats pp0)
                        \<lparr>total_packets := total_packets (pp_stats pp0) + 1\<rparr>\<rparr>
      in case validate_packet (pkt_buffer p) (pkt_len p) of
        None \<Rightarrow> None
      | Some valid \<Rightarrow>
          if \<not> valid then
            Some (pp\<lparr>pp_logger := log_warning (InvalidPacketWarning (pkt_id p)) (pp_logger pp)\<rparr>)
          else
            (case read_header (pkt_buffer p) of
               None \<Rightarrow> None
             | Some header \<Rightarrow>
                 (let sequence = hdr_sequence header;
                      count = hdr_count header;
                      unit = hdr_unit header;
                      packet_type = classify_packet_type sequence count (pkt_len p)
                  in if packet_type = HEARTBEAT \<and> SKIP_HEARTBEATS then
                       Some (pp\<lparr>pp_stats := (pp_stats pp)
                               \<lparr>heartbeats_skipped := heartbeats_skipped (pp_stats pp) + 1\<rparr>\<rparr>)
                     else
                       (let pp1 = pp\<lparr>pp_stats := count_packet_type packet_type (pp_stats pp)\<rparr>
                        in (case determine_order_status sequence count (pkt_port p) unit
                                   (pp_sequence_manager pp1) of
                              None \<Rightarrow> None
                            | Some (order_status, trackers') \<Rightarrow>
                                (let pp2 = pp1\<lparr>pp_sequence_manager := trackers',
                                               pp_stats :=
                                                 count_order_status order_status (pp_stats pp1)\<rparr>
                                 in (case log_packet (pkt_now p) (word_of_int (pkt_id p))
                                            (word_of_int (pkt_port p)) (pkt_buffer p)
                                            (word_of_int (pkt_len p)) sequence count unit
                                            packet_type order_status (pkt_src_ip p)
                                            (pp_logger pp2) of
                                       None \<Rightarrow> None
                                     | Some logger' \<Rightarrow>
                                         (let pp3 = pp2\<lparr>pp_logger := logger'\<rparr>;
                                              pp4 = (if should_report_statistics pp3
                                                     then print_performance_report pp3
                                                     else pp3);
                                              pp5 = (if total_packets (pp_stats pp4)
                                                          mod FLUSH_INTERVAL = 0
                                                     then flush_logs pp4
                                                     else pp4)
                                          in Some pp5))))))))"

text \<open>The processor fed a list of packets in order, as the capture loop's callback does.\<close>

fun process_packets :: "Packet list \<Rightarrow> PacketProcessor \<Rightarrow> PacketProcessor option" where
  "process_packets [] pp = Some pp"
| "process_packets (p # ps) pp =
     (case process_packet p pp of None \<Rightarrow> None | Some pp' \<Rightarrow> process_packets ps pp')"

text \<open>The number of packets of a list that \<open>validate_packet\<close> rejects.\<close>

definition invalid_packets :: "Packet list \<Rightarrow> nat" where
  "invalid_packets ps =
     length (filter (\<lambda>p. validate_packet (pkt_buffer p) (pkt_len p) = Some False) ps)"

section \<open>Classification follows the ordered first-match rules\<close>

text \<open>
  Claim C6: for every input \<open>(seq, count, len)\<close>, \<open>classify_packet_type\<close> returns
  HEARTBEAT when \<open>seq = 0\<close>, \<open>count = 0\<close> and \<open>len \<le> 20\<close>; otherwise ADMIN when
  \<open>seq = 0\<close> and \<open>count = 0\<close>; otherwise UNSEQUENCED when \<open>seq = 0\<close>; otherwise DATA.
  The second conjunct is the consequence the specification singles out: every packet
  with \<open>seq > 0\<close> is DATA.
\<close>

theorem classify_packet_type_first_match:
  "classify_packet_type seq count len =
     (if seq = 0 \<and> count = 0 \<and> len \<le> 20 then HEARTBEAT
      else if seq = 0 \<and> count = 0 then ADMIN
      else if seq = 0 then UNSEQUENCED
      else DATA)
   \<and> (0 < seq \<longrightarrow> classify_packet_type seq count len = DATA)"
  by (auto simp: classify_packet_type_def word_greater_zero_iff)

theorem classify_packet_type_first_match_witness:
  "(0::u32) < 7
   \<and> classify_packet_type 7 3 64 = DATA
   \<and> classify_packet_type 0 0 20 = HEARTBEAT
   \<and> classify_packet_type 0 0 21 = ADMIN
   \<and> classify_packet_type 0 2 12 = UNSEQUENCED"
  using classify_packet_type_first_match [of 7 3 64]
        classify_packet_type_first_match [of 0 0 20]
        classify_packet_type_first_match [of 0 0 21]
        classify_packet_type_first_match [of 0 2 12]
  by simp

section \<open>Running the tracker's loops\<close>

text \<open>
  One iteration of each loop as a conditional equation. With these the simplifier runs
  the tracker on concrete packets, and stops where a loop would.
\<close>

lemma scan_confirmed_end_stop:
  "pending (confirmed_end + 1) = None \<Longrightarrow>
   scan_confirmed_end pending confirmed_end = Some confirmed_end"
  by (subst scan_confirmed_end.simps) simp

lemma scan_confirmed_end_step:
  "pending (confirmed_end + 1) = Some b \<Longrightarrow>
   scan_confirmed_end pending confirmed_end = scan_confirmed_end pending (confirmed_end + 1)"
  by (subst scan_confirmed_end.simps) simp

lemma erase_run_stop:
  "\<not> s \<le> confirmed_end \<Longrightarrow> erase_run pending s confirmed_end = Some pending"
  by (subst erase_run.simps) simp

lemma erase_run_step:
  "s \<le> confirmed_end \<Longrightarrow>
   erase_run pending s confirmed_end = erase_run (pending(s := None)) (s + 1) confirmed_end"
  by (subst erase_run.simps) simp

lemma confirm_pending_stop:
  "pending_sequences tracker (last_confirmed_seq tracker + 1) = None \<Longrightarrow>
   confirm_pending tracker = Some tracker"
  by (subst confirm_pending.simps) simp

lemma confirm_pending_step:
  "pending_sequences tracker (last_confirmed_seq tracker + 1) = Some b \<Longrightarrow>
   scan_confirmed_end (pending_sequences tracker) (last_confirmed_seq tracker + 1)
     = Some confirmed_end \<Longrightarrow>
   erase_run (pending_sequences tracker) (last_confirmed_seq tracker + 1) confirmed_end
     = Some pending' \<Longrightarrow>
   confirm_pending tracker =
     confirm_pending (tracker\<lparr>last_confirmed_seq := confirmed_end,
                              pending_sequences := pending'\<rparr>)"
  by (subst confirm_pending.simps) simp

lemmas loop_steps =
  scan_confirmed_end_stop scan_confirmed_end_step erase_run_stop erase_run_step
  confirm_pending_stop confirm_pending_step

lemmas tracker_defs =
  determine_order_status_def track_def effective_count_def UINT32_MAX_def new_tracker_def
  mark_pending_def get_tracker_def channel_state_def observe_def

section \<open>Gap fill: the sequences 1, 3, 2\<close>

text \<open>
  Claim C4: on one channel, from the initial state, the sequences 1, 3, 2 with
  \<open>count = 1\<close> get the verdicts FIRST, EARLY, IN\_ORDER; after the third call the
  pending set is empty and \<open>last_confirmed_seq\<close> is 3, the in-order advance having
  absorbed the pending 3.
\<close>

theorem gap_fill_1_3_2:
  "observe 30501 1 (run_calls [(1, 1, 30501, 1), (3, 1, 30501, 1), (2, 1, 30501, 1)] Map.empty)
   = Some ([SEQUENCED_FIRST, SEQUENCED_OUT_OF_ORDER_EARLY, SEQUENCED_IN_ORDER],
           Some (3, 3, {}))"
  by (simp add: tracker_defs loop_steps)

section \<open>The LATE verdict cannot be returned\<close>

lemma successor_not_between: "(s::u32) < l + 1 \<Longrightarrow> l < s \<Longrightarrow> False"
  by (metis inc_le not_le)

lemma track_never_late:
  "track seq count tracker = Some (status, tracker') \<Longrightarrow>
   status \<noteq> SEQUENCED_OUT_OF_ORDER_LATE"
  by (auto simp: track_def Let_def split: if_splits option.splits dest: successor_not_between)

lemma determine_order_status_never_late:
  "determine_order_status seq count port unit trackers = Some (status, trackers') \<Longrightarrow>
   status \<noteq> SEQUENCED_OUT_OF_ORDER_LATE"
  by (auto simp: determine_order_status_def Let_def split: if_splits option.splits
           dest: track_never_late)

lemma run_calls_never_late:
  "run_calls calls trackers = Some (statuses, trackers') \<Longrightarrow>
   SEQUENCED_OUT_OF_ORDER_LATE \<notin> set statuses"
proof (induction calls arbitrary: trackers statuses)
  case Nil
  then show ?case by simp
next
  case (Cons call calls)
  obtain seq count port unit where call: "call = (seq, count, port, unit)"
    by (cases call) auto
  from Cons.prems obtain status mid rest where
    step: "determine_order_status seq count port unit trackers = Some (status, mid)" and
    tail: "run_calls calls mid = Some (rest, trackers')" and
    all: "statuses = status # rest"
    by (auto simp: call split: option.splits)
  from step have "status \<noteq> SEQUENCED_OUT_OF_ORDER_LATE"
    by (rule determine_order_status_never_late)
  moreover from tail have "SEQUENCED_OUT_OF_ORDER_LATE \<notin> set rest"
    by (rule Cons.IH)
  ultimately show ?case using all by auto
qed

text \<open>
  Claim C2: for every sequence of calls to \<open>determine_order_status\<close> from the empty
  tracker state, with any \<open>(seq, count, port, unit)\<close> in each call, no returned verdict
  is SEQUENCED\_OUT\_OF\_ORDER\_LATE. The branch that returns it asks for
  \<open>seq < last_confirmed_seq + 1\<close> and \<open>seq > last_confirmed_seq\<close> at once in \<open>uint32_t\<close>
  arithmetic (lemma \<open>successor_not_between\<close>), which no value satisfies.
\<close>

theorem late_verdict_unreachable:
  "run_calls calls Map.empty = Some (statuses, trackers') \<Longrightarrow>
   SEQUENCED_OUT_OF_ORDER_LATE \<notin> set statuses"
  by (rule run_calls_never_late)

theorem late_verdict_unreachable_witness:
  "map_option fst (run_calls [(7, 2, 30502, 3), (20, 1, 30502, 3), (15, 1, 30502, 3),
                              (9, 1, 30502, 3), (8, 1, 30502, 3), (0, 0, 30502, 3)] Map.empty)
   = Some [SEQUENCED_FIRST, SEQUENCED_OUT_OF_ORDER_EARLY, SEQUENCED_OUT_OF_ORDER_EARLY,
           SEQUENCED_IN_ORDER, SEQUENCED_DUPLICATE, ORDER_UNSEQUENCED]
   \<and> SEQUENCED_OUT_OF_ORDER_LATE
       \<notin> set [SEQUENCED_FIRST, SEQUENCED_OUT_OF_ORDER_EARLY, SEQUENCED_OUT_OF_ORDER_EARLY,
               SEQUENCED_IN_ORDER, SEQUENCED_DUPLICATE, ORDER_UNSEQUENCED]"
proof -
  have "\<exists>trackers'.
          run_calls [(7, 2, 30502, 3), (20, 1, 30502, 3), (15, 1, 30502, 3),
                     (9, 1, 30502, 3), (8, 1, 30502, 3), (0, 0, 30502, 3)] Map.empty
          = Some ([SEQUENCED_FIRST, SEQUENCED_OUT_OF_ORDER_EARLY, SEQUENCED_OUT_OF_ORDER_EARLY,
                   SEQUENCED_IN_ORDER, SEQUENCED_DUPLICATE, ORDER_UNSEQUENCED], trackers')"
    by (simp add: tracker_defs loop_steps)
  then obtain trackers' where
    run: "run_calls [(7, 2, 30502, 3), (20, 1, 30502, 3), (15, 1, 30502, 3),
                     (9, 1, 30502, 3), (8, 1, 30502, 3), (0, 0, 30502, 3)] Map.empty
          = Some ([SEQUENCED_FIRST, SEQUENCED_OUT_OF_ORDER_EARLY, SEQUENCED_OUT_OF_ORDER_EARLY,
                   SEQUENCED_IN_ORDER, SEQUENCED_DUPLICATE, ORDER_UNSEQUENCED], trackers')"
    by blast
  from late_verdict_unreachable [OF run] run show ?thesis
    by simp
qed

section \<open>A packet inside the gap is EARLY\<close>

lemma track_early_in_gap:
  assumes "last_confirmed_seq tracker < seq" "seq \<le> highest_seen_seq tracker"
      "seq \<noteq> last_confirmed_seq tracker + 1"
  shows "map_option fst (track seq count tracker) = Some SEQUENCED_OUT_OF_ORDER_EARLY"
proof -
  have "highest_seen_seq tracker \<noteq> 0"
    using assms(1,2) by (metis not_less word_le_0_iff word_coorder.extremum)
  moreover have "\<not> seq < last_confirmed_seq tracker + 1"
    using assms(1) successor_not_between by blast
  ultimately show ?thesis
    using assms(3) by (simp add: track_def Let_def)
qed

text \<open>
  Claim C1, as stated, fails at its own input: the third verdict of
  \<open>(10,1), (15,1), (12,1)\<close> is not LATE.
\<close>

theorem scenario_10_15_12_not_late:
  "map_option fst
     (run_calls [(10, 1, 30501, 1), (15, 1, 30501, 1), (12, 1, 30501, 1)] Map.empty)
   \<noteq> Some [SEQUENCED_FIRST, SEQUENCED_OUT_OF_ORDER_EARLY, SEQUENCED_OUT_OF_ORDER_LATE]"
  by (simp add: tracker_defs loop_steps)

text \<open>
  Claim C1, amended: on one channel, from the initial state, the packets
  \<open>(10,1), (15,1), (12,1)\<close> get the verdicts FIRST, EARLY, EARLY and leave the channel
  state \<open>(last_confirmed_seq, highest_seen_seq, pending) = (10, 15, {15, 12})\<close>; more
  generally, every sequenced packet with \<open>last_confirmed_seq < seq \<le> highest_seen_seq\<close>
  and \<open>seq \<noteq> last_confirmed_seq + 1\<close> is classified EARLY.
\<close>

theorem scenario_10_15_12_early:
  "observe 30501 1
     (run_calls [(10, 1, 30501, 1), (15, 1, 30501, 1), (12, 1, 30501, 1)] Map.empty)
   = Some ([SEQUENCED_FIRST, SEQUENCED_OUT_OF_ORDER_EARLY, SEQUENCED_OUT_OF_ORDER_EARLY],
           Some (10, 15, {15, 12}))
   \<and> (get_tracker trackers port unit = Some tracker
        \<and> last_confirmed_seq tracker < seq \<and> seq \<le> highest_seen_seq tracker
        \<and> seq \<noteq> last_confirmed_seq tracker + 1
      \<longrightarrow> map_option fst (determine_order_status seq count port unit trackers)
          = Some SEQUENCED_OUT_OF_ORDER_EARLY)"
proof (intro conjI impI)
  show "observe 30501 1
          (run_calls [(10, 1, 30501, 1), (15, 1, 30501, 1), (12, 1, 30501, 1)] Map.empty)
        = Some ([SEQUENCED_FIRST, SEQUENCED_OUT_OF_ORDER_EARLY, SEQUENCED_OUT_OF_ORDER_EARLY],
                Some (10, 15, {15, 12}))"
    by (auto simp: tracker_defs loop_steps)
next
  assume gap: "get_tracker trackers port unit = Some tracker
      \<and> last_confirmed_seq tracker < seq \<and> seq \<le> highest_seen_seq tracker
      \<and> seq \<noteq> last_confirmed_seq tracker + 1"
  then have "seq \<noteq> 0"
    by (metis word_not_simps(1))
  moreover from gap
  have "map_option fst (track seq count tracker) = Some SEQUENCED_OUT_OF_ORDER_EARLY"
    by (simp add: track_early_in_gap)
  ultimately
  show "map_option fst (determine_order_status seq count port unit trackers)
        = Some SEQUENCED_OUT_OF_ORDER_EARLY"
    using gap by (auto simp: determine_order_status_def get_tracker_def Let_def
                       split: option.splits)
qed

theorem scenario_10_15_12_early_witness:
  "get_tracker
     [(30501, 1) \<mapsto> \<lparr>last_confirmed_seq = 10, highest_seen_seq = 15,
                       pending_sequences = [15 \<mapsto> True]\<rparr>] 30501 1
   = Some \<lparr>last_confirmed_seq = 10, highest_seen_seq = 15, pending_sequences = [15 \<mapsto> True]\<rparr>
   \<and> (10::u32) < 12 \<and> (12::u32) \<le> 15 \<and> (12::u32) \<noteq> 10 + 1
   \<and> map_option fst
        (determine_order_status 12 1 30501 1
           [(30501, 1) \<mapsto> \<lparr>last_confirmed_seq = 10, highest_seen_seq = 15,
                             pending_sequences = [15 \<mapsto> True]\<rparr>])
       = Some SEQUENCED_OUT_OF_ORDER_EARLY"
  using scenario_10_15_12_early
    [of "[(30501, 1) \<mapsto> \<lparr>last_confirmed_seq = 10, highest_seen_seq = 15,
                            pending_sequences = [15 \<mapsto> True]\<rparr>]"
        30501 1
        "\<lparr>last_confirmed_seq = 10, highest_seen_seq = 15, pending_sequences = [15 \<mapsto> True]\<rparr>"
        12 1]
  by (simp add: get_tracker_def)

section \<open>The in-order advance and \<open>highest_seen_seq\<close>\<close>

text \<open>
  Claim C3 says that after every call \<open>last_confirmed_seq \<le> highest_seen_seq\<close>. The
  FIRST and EARLY branches write \<open>highest_seen_seq\<close>; the IN\_ORDER branch advances
  \<open>last_confirmed_seq\<close> alone. After \<open>(10,1), (11,1)\<close> the channel holds
  \<open>last_confirmed_seq = 11\<close> above \<open>highest_seen_seq = 10\<close>.
\<close>

theorem in_order_advance_passes_highest_seen:
  "observe 30501 1 (run_calls [(10, 1, 30501, 1), (11, 1, 30501, 1)] Map.empty)
   = Some ([SEQUENCED_FIRST, SEQUENCED_IN_ORDER], Some (11, 10, {}))
   \<and> \<not> (11::u32) \<le> 10"
  by (simp add: tracker_defs loop_steps)

section \<open>Replay of a confirmed sequence\<close>

text \<open>
  Below the top of the \<open>uint32_t\<close> range a confirmed sequence is a DUPLICATE and the
  tracker is returned as it was, for any count.
\<close>

lemma track_duplicate:
  assumes "1 \<le> seq" "seq \<le> last_confirmed_seq tracker"
      "last_confirmed_seq tracker \<noteq> UINT32_MAX"
  shows "track seq count tracker = Some (SEQUENCED_DUPLICATE, tracker)"
proof -
  have nz: "last_confirmed_seq tracker \<noteq> 0"
    using assms(1,2) by (metis word_le_0_iff one_neq_zero)
  have "UINT32_MAX = - 1" by (simp add: UINT32_MAX_def)
  with assms(3) have "last_confirmed_seq tracker \<noteq> - 1"
    by simp
  then have "last_confirmed_seq tracker < last_confirmed_seq tracker + 1"
    using inc_less_eq_self_iff_eq [of "last_confirmed_seq tracker"] by simp
  then have lt: "seq < last_confirmed_seq tracker + 1"
    using assms(2) by simp
  then have "seq \<noteq> last_confirmed_seq tracker + 1"
    by auto
  then show ?thesis
    using nz lt assms(2) by (simp add: track_def Let_def)
qed

text \<open>
  Claim C7 says that for every channel state a sequence \<open>1 \<le> seq \<le> last_confirmed_seq\<close>
  is a DUPLICATE and changes nothing. With \<open>last_confirmed_seq = UINT32_MAX\<close> (reached by
  a first packet of that sequence) \<open>expected\<close> wraps to 0, the test \<open>seq < expected\<close>
  fails, and the confirmed sequence 5 is returned as EARLY and inserted into pending.
\<close>

theorem confirmed_replay_at_uint32_max:
  "observe 30501 1 (run_calls [(0xFFFFFFFF, 1, 30501, 1)] Map.empty)
   = Some ([SEQUENCED_FIRST], Some (0xFFFFFFFF, 0xFFFFFFFF, {}))
   \<and> observe 30501 1 (run_calls [(0xFFFFFFFF, 1, 30501, 1), (5, 1, 30501, 1)] Map.empty)
   = Some ([SEQUENCED_FIRST, SEQUENCED_OUT_OF_ORDER_EARLY],
           Some (0xFFFFFFFF, 0xFFFFFFFF, {5}))
   \<and> (1::u32) \<le> 5 \<and> (5::u32) \<le> 0xFFFFFFFF"
  by (simp add: tracker_defs loop_steps)

section \<open>The overflow check on the message count\<close>

lemma unat_u8_bound: "unat (c::u8) < 256"
  using unsigned_less [of c, where 'a = nat] by simp

lemma unat_ucast_u8_u32: "unat (ucast (c::u8) :: u32) = unat c"
  using unat_u8_bound [of c]
  by (simp add: unsigned_ucast_eq take_bit_nat_eq_self)

lemma unat_guard:
  assumes "1 \<le> unat (m::u32)"
  shows "unat (UINT32_MAX - m + 1) = 4294967296 - unat m"
proof -
  have "UINT32_MAX - m + 1 = - m" by (simp add: UINT32_MAX_def)
  moreover have "unat (- m) = 4294967296 - unat m"
    using assms unat_sub_if_size [of 0 m] by (simp add: word_size)
  ultimately show ?thesis by (simp only:)
qed

lemma range_end_no_wrap:
  assumes "1 \<le> unat (m::u32)" "unat (s::u32) + unat m \<le> 4294967296"
  shows "unat (s + m - 1) = unat s + unat m - 1"
proof -
  have "1 \<le> m" using assms(1) by (simp add: word_le_nat_alt)
  then have m1: "unat (m - 1) = unat m - 1"
    by (simp add: unat_sub)
  have "unat s + unat (m - 1) < 2 ^ LENGTH(32)"
    using assms m1 by simp
  then have sum: "unat (s + (m - 1)) = unat s + unat (m - 1)"
    by (simp only: unat_add_lem)
  have "unat (s + m - 1) = unat (s + (m - 1))"
    by (simp add: add_diff_eq)
  also have "\<dots> = unat s + unat m - 1"
    using sum m1 assms(1) by simp
  finally show ?thesis .
qed

lemma offset_no_wrap:
  assumes "unat (s::u32) + unat (m::u32) \<le> 4294967296" "i < unat m"
  shows "unat (s + of_nat i) = unat s + i"
proof -
  have i: "i < 2 ^ LENGTH(32)"
    using assms(2) unsigned_less [of m, where 'a = nat] by simp
  then have "unat (of_nat i :: u32) = i" by (simp add: unat_of_nat)
  moreover have "unat s + i < 2 ^ LENGTH(32)" using assms by simp
  ultimately show ?thesis by (metis unat_add_lem)
qed

lemma effective_count_unat:
  "unat (effective_count seq count)
   = (if 4294967295 - max (unat count) 1 + 1 < unat seq then 1 else max (unat count) 1)"
proof -
  define m :: u32 where "m = (if count > 0 then ucast count else 1)"
  have m_nat: "unat m = max (unat count) 1"
    by (auto simp: m_def word_less_nat_alt unat_ucast_u8_u32 max_def)
  then have pos: "1 \<le> unat m"
    by simp
  have small: "unat m < 256"
    using m_nat unat_u8_bound [of count] by simp
  have "seq > UINT32_MAX - m + 1 \<longleftrightarrow> 4294967296 - unat m < unat seq"
    using unat_guard [OF pos] by (simp add: word_less_nat_alt)
  moreover have "4294967296 - unat m = 4294967295 - unat m + 1"
    using small by simp
  ultimately have "effective_count seq count
      = (if 4294967295 - unat m + 1 < unat seq then 1 else m)"
    by (simp add: effective_count_def m_def Let_def)
  then show ?thesis
    using m_nat by simp
qed

lemma effective_count_fits:
  "1 \<le> unat (effective_count seq count)"
  "unat seq + unat (effective_count seq count) \<le> 4294967296"
proof -
  show "1 \<le> unat (effective_count seq count)"
    by (simp add: effective_count_unat)
  have "unat seq < 4294967296"
    using unsigned_less [of seq, where 'a = nat] by simp
  moreover have "max (unat count) 1 < 256"
    using unat_u8_bound [of count] by simp
  ultimately show "unat seq + unat (effective_count seq count) \<le> 4294967296"
    by (auto simp: effective_count_unat max_def)
qed

lemma unat_max_u32: "unat (max (a::u32) b) = max (unat a) (unat b)"
  by (simp add: max_def word_le_nat_alt)

lemma dom_fold_mark:
  "dom (fold (\<lambda>i m. m(seq + of_nat i \<mapsto> True)) xs pending)
   = dom pending \<union> (\<lambda>i. seq + of_nat i) ` set xs"
  by (induction xs arbitrary: pending) auto

lemma dom_mark_pending:
  "dom (mark_pending pending seq message_count)
   = dom pending \<union> (\<lambda>i. seq + of_nat i) ` {0..<unat message_count}"
  by (simp add: mark_pending_def dom_fold_mark)

lemma marked_keys:
  assumes fits: "unat (s::u32) + unat (m::u32) \<le> 4294967296"
  shows "(\<lambda>i. s + of_nat i) ` {0..<unat m} = {k::u32. unat s \<le> unat k \<and> unat k < unat s + unat m}"
proof (intro set_eqI iffI)
  fix k :: u32
  assume "k \<in> (\<lambda>i. s + of_nat i) ` {0..<unat m}"
  then obtain i where i: "i < unat m" and k: "k = s + of_nat i"
    by auto
  from offset_no_wrap [OF fits i] k have "unat k = unat s + i"
    by simp
  with i show "k \<in> {k. unat s \<le> unat k \<and> unat k < unat s + unat m}"
    by simp
next
  fix k :: u32
  assume "k \<in> {k. unat s \<le> unat k \<and> unat k < unat s + unat m}"
  then have lo: "unat s \<le> unat k" and hi: "unat k < unat s + unat m"
    by simp_all
  define i where "i = unat k - unat s"
  have i: "i < unat m"
    using lo hi by (simp add: i_def)
  from offset_no_wrap [OF fits i] have "unat (s + of_nat i) = unat k"
    using lo by (simp add: i_def)
  then have "k = s + of_nat i"
    by (simp add: word_unat_eq_iff)
  with i show "k \<in> (\<lambda>i. s + of_nat i) ` {0..<unat m}"
    by auto
qed


text \<open>The range end in each branch of the tracker that computes one.\<close>

lemma track_range_ends:
  fixes seq :: u32 and count :: u8
  defines "n \<equiv> max (unat count) 1"
  defines "m \<equiv> (if 4294967295 - n + 1 < unat seq then 1 else n)"
  defines "range_end \<equiv> unat seq + m - 1"
  assumes run: "track seq count old = Some (status, new)"
  shows "range_end \<le> 4294967295"
    and "status = SEQUENCED_FIRST \<Longrightarrow>
           unat (last_confirmed_seq new) = range_end \<and> unat (highest_seen_seq new) = range_end"
    and "status = SEQUENCED_IN_ORDER \<Longrightarrow>
           \<exists>e. unat e = range_end \<and> confirm_pending (old\<lparr>last_confirmed_seq := e\<rparr>) = Some new"
    and "status = SEQUENCED_OUT_OF_ORDER_EARLY \<Longrightarrow>
           unat (highest_seen_seq new) = max (unat (highest_seen_seq old)) range_end
           \<and> dom (pending_sequences new)
               = dom (pending_sequences old) \<union> {k. unat seq \<le> unat k \<and> unat k \<le> range_end}"
proof -
  let ?mc = "effective_count seq count"
  have m: "unat ?mc = m"
    by (simp add: effective_count_unat m_def n_def)
  have pos: "1 \<le> unat ?mc" and fits: "unat seq + unat ?mc \<le> 4294967296"
    by (rule effective_count_fits)+
  have e: "unat (seq + ?mc - 1) = range_end"
    using range_end_no_wrap [OF pos fits] m by (simp add: range_end_def)
  show "range_end \<le> 4294967295"
    using fits pos m by (simp add: range_end_def)
  {
    assume "status = SEQUENCED_FIRST"
    with run have "new = old\<lparr>last_confirmed_seq := seq + ?mc - 1,
                             highest_seen_seq := seq + ?mc - 1\<rparr>"
      by (auto simp: track_def Let_def split: if_splits option.splits)
    then show "unat (last_confirmed_seq new) = range_end
               \<and> unat (highest_seen_seq new) = range_end"
      using e by simp
  }
  {
    assume "status = SEQUENCED_IN_ORDER"
    with run have "confirm_pending (old\<lparr>last_confirmed_seq := seq + ?mc - 1\<rparr>) = Some new"
      by (auto simp: track_def Let_def split: if_splits option.splits)
    with e show "\<exists>e. unat e = range_end
                   \<and> confirm_pending (old\<lparr>last_confirmed_seq := e\<rparr>) = Some new"
      by blast
  }
  {
    assume "status = SEQUENCED_OUT_OF_ORDER_EARLY"
    with run have new: "new = old\<lparr>pending_sequences :=
                                 mark_pending (pending_sequences old) seq ?mc,
                               highest_seen_seq :=
                                 max (highest_seen_seq old) (seq + ?mc - 1)\<rparr>"
      by (auto simp: track_def Let_def split: if_splits option.splits)
    have "{k::u32. unat seq \<le> unat k \<and> unat k < unat seq + unat ?mc}
          = {k. unat seq \<le> unat k \<and> unat k \<le> range_end}"
      using pos m by (auto simp: range_end_def)
    then have "dom (pending_sequences new)
          = dom (pending_sequences old) \<union> {k. unat seq \<le> unat k \<and> unat k \<le> range_end}"
      using new marked_keys [OF fits] by (simp add: dom_mark_pending)
    moreover have "unat (highest_seen_seq new) = max (unat (highest_seen_seq old)) range_end"
      using new e by (simp add: unat_max_u32)
    ultimately show "unat (highest_seen_seq new) = max (unat (highest_seen_seq old)) range_end
           \<and> dom (pending_sequences new)
               = dom (pending_sequences old) \<union> {k. unat seq \<le> unat k \<and> unat k \<le> range_end}"
      by simp
  }
qed


text \<open>
  Claim C8: in \<open>determine_order_status\<close>, with \<open>n = max(count, 1)\<close>, whenever
  \<open>seq > UINT32_MAX - n + 1\<close> the effective message count \<open>m\<close> is reduced to 1; so the
  range end \<open>seq + m - 1\<close> never wraps around modulo \<open>2^32\<close>: it is at most
  \<open>UINT32_MAX\<close> over the naturals, and it is the value the call writes. A FIRST packet
  stores it in \<open>last_confirmed_seq\<close> and \<open>highest_seen_seq\<close>; an IN\_ORDER packet advances
  \<open>last_confirmed_seq\<close> to it before pending sequences are confirmed; an EARLY packet
  raises \<open>highest_seen_seq\<close> to it and adds exactly the keys from \<open>seq\<close> to it to the
  pending map.
\<close>

theorem range_ends_never_wrap:
  fixes seq :: u32 and count :: u8 and port :: int and unit :: u8 and trackers :: trackers
  defines "n \<equiv> max (unat count) 1"
  defines "m \<equiv> (if 4294967295 - n + 1 < unat seq then 1 else n)"
  defines "range_end \<equiv> unat seq + m - 1"
  defines "old \<equiv> (case get_tracker trackers port unit of None \<Rightarrow> new_tracker | Some t \<Rightarrow> t)"
  assumes sequenced: "seq \<noteq> 0"
      and call: "determine_order_status seq count port unit trackers = Some (status, trackers')"
  shows "unat (effective_count seq count) = m
       \<and> range_end \<le> 4294967295
       \<and> (\<exists>new. get_tracker trackers' port unit = Some new
            \<and> (status = SEQUENCED_FIRST \<longrightarrow>
                  unat (last_confirmed_seq new) = range_end
                  \<and> unat (highest_seen_seq new) = range_end)
            \<and> (status = SEQUENCED_IN_ORDER \<longrightarrow>
                  (\<exists>e. unat e = range_end
                       \<and> confirm_pending (old\<lparr>last_confirmed_seq := e\<rparr>) = Some new))
            \<and> (status = SEQUENCED_OUT_OF_ORDER_EARLY \<longrightarrow>
                  unat (highest_seen_seq new) = max (unat (highest_seen_seq old)) range_end
                  \<and> dom (pending_sequences new)
                      = dom (pending_sequences old)
                        \<union> {k. unat seq \<le> unat k \<and> unat k \<le> range_end}))"
proof -
  from sequenced call obtain new where
    body: "track seq count old = Some (status, new)" and
    stored: "trackers' = trackers((port, uint unit) \<mapsto> new)"
    by (auto simp: determine_order_status_def old_def get_tracker_def Let_def
             split: option.splits)
  have "get_tracker trackers' port unit = Some new"
    using stored by (simp add: get_tracker_def)
  moreover have "unat (effective_count seq count) = m"
    by (simp add: effective_count_unat m_def n_def)
  ultimately show ?thesis
    using track_range_ends [OF body]
    unfolding range_end_def m_def n_def by blast
qed

text \<open>
  A first packet \<open>(0xFFFFFFFE, 5)\<close>, whose count the check reduces to 1, an early
  packet \<open>(0xFFFFFFFB, 5)\<close>, whose range ends exactly at \<open>UINT32_MAX\<close>, and an in-order
  packet \<open>(11, 3)\<close>.
\<close>

theorem range_ends_never_wrap_witness:
  "(0xFFFFFFFE :: u32) \<noteq> 0
   \<and> determine_order_status 0xFFFFFFFE 5 30501 1 Map.empty
       = Some (SEQUENCED_FIRST,
               [(30501, 1) \<mapsto> \<lparr>last_confirmed_seq = 0xFFFFFFFE, highest_seen_seq = 0xFFFFFFFE,
                                 pending_sequences = Map.empty\<rparr>])
   \<and> unat (effective_count 0xFFFFFFFE 5) = 1
   \<and> unat (0xFFFFFFFE :: u32) = 4294967294
   \<and> (0xFFFFFFFB :: u32) \<noteq> 0
   \<and> observe 30501 1
        (run_calls [(0xFFFFFFFB, 5, 30501, 1)]
           [(30501, 1) \<mapsto> \<lparr>last_confirmed_seq = 10, highest_seen_seq = 10,
                             pending_sequences = Map.empty\<rparr>])
       = Some ([SEQUENCED_OUT_OF_ORDER_EARLY],
               Some (10, 0xFFFFFFFF,
                     {0xFFFFFFFB, 0xFFFFFFFC, 0xFFFFFFFD, 0xFFFFFFFE, 0xFFFFFFFF}))
   \<and> unat (effective_count 0xFFFFFFFB 5) = 5
   \<and> unat (0xFFFFFFFF :: u32) = max (unat (10 :: u32)) (4294967291 + 5 - 1)
   \<and> (11 :: u32) \<noteq> 0
   \<and> determine_order_status 11 3 30501 1
        [(30501, 1) \<mapsto> \<lparr>last_confirmed_seq = 10, highest_seen_seq = 10,
                          pending_sequences = Map.empty\<rparr>]
       = Some (SEQUENCED_IN_ORDER,
               [(30501, 1) \<mapsto> \<lparr>last_confirmed_seq = 13, highest_seen_seq = 10,
                                 pending_sequences = Map.empty\<rparr>])
   \<and> unat (13 :: u32) = 11 + 3 - 1"
proof -
  let ?first = "[(30501, 1) \<mapsto> \<lparr>last_confirmed_seq = 0xFFFFFFFE, highest_seen_seq = 0xFFFFFFFE,
                                  pending_sequences = Map.empty\<rparr>] :: trackers"
  let ?started = "[(30501, 1) \<mapsto> \<lparr>last_confirmed_seq = 10, highest_seen_seq = 10,
                                    pending_sequences = Map.empty\<rparr>] :: trackers"
  have first: "determine_order_status 0xFFFFFFFE 5 30501 1 Map.empty
               = Some (SEQUENCED_FIRST, ?first)"
    by (simp add: tracker_defs)
  have "\<exists>trackers'. determine_order_status 0xFFFFFFFB 5 30501 1 ?started
                      = Some (SEQUENCED_OUT_OF_ORDER_EARLY, trackers')"
    by (simp add: tracker_defs)
  then obtain trackers' where
    early: "determine_order_status 0xFFFFFFFB 5 30501 1 ?started
            = Some (SEQUENCED_OUT_OF_ORDER_EARLY, trackers')"
    by blast
  have upt5: "[0..<5] = [0, 1, 2, 3, 4]"
    by (simp add: upt_rec)
  have obs: "observe 30501 1 (run_calls [(0xFFFFFFFB, 5, 30501, 1)] ?started)
       = Some ([SEQUENCED_OUT_OF_ORDER_EARLY],
               Some (10, 0xFFFFFFFF,
                     {0xFFFFFFFB, 0xFFFFFFFC, 0xFFFFFFFD, 0xFFFFFFFE, 0xFFFFFFFF}))"
    by (auto simp: tracker_defs upt5)
  have in_order: "determine_order_status 11 3 30501 1 ?started
       = Some (SEQUENCED_IN_ORDER,
               [(30501, 1) \<mapsto> \<lparr>last_confirmed_seq = 13, highest_seen_seq = 10,
                                 pending_sequences = Map.empty\<rparr>])"
    by (simp add: tracker_defs loop_steps)
  from range_ends_never_wrap [OF _ first] range_ends_never_wrap [OF _ early]
    range_ends_never_wrap [OF _ in_order] first obs in_order
  show ?thesis
    by simp
qed

section \<open>Packet validation\<close>

text \<open>
  Claim C5: \<open>validate_packet(buffer, len)\<close> returns true if and only if \<open>len \<ge> 8\<close>, the
  little-endian \<open>hdr_length\<close> at offset 0 satisfies \<open>1 \<le> hdr_length \<le> 2048\<close>, and
  \<open>hdr_length \<le> len + 100\<close>; in particular \<open>hdr_length = 0\<close> and \<open>hdr_length > 2048\<close> are
  rejected. The call is defined when the buffer holds the eight header bytes that a
  \<open>len\<close> of 8 or more announces, and \<open>len + 100\<close> is an \<open>int\<close>.
\<close>

theorem validate_packet_accepts_iff:
  fixes buffer :: "u8 list" and len :: int
  defines "declared \<equiv> (le_value (take 2 buffer) :: u16)"
  assumes holds: "8 \<le> len \<longrightarrow> 8 \<le> length buffer"
      and no_overflow: "len + 100 \<le> INT_MAX"
  shows "validate_packet buffer len
         = Some (8 \<le> len \<and> 1 \<le> uint declared \<and> uint declared \<le> 2048
                 \<and> uint declared \<le> len + 100)
       \<and> (declared = 0 \<or> 2048 < uint declared \<longrightarrow> validate_packet buffer len = Some False)"
proof (cases "len < 8")
  case True
  then show ?thesis by (simp add: validate_packet_def)
next
  case False
  then have "8 \<le> length buffer"
    using holds by simp
  then have header: "read_header buffer
      = Some \<lparr>hdr_length = declared, hdr_count = buffer ! 2, hdr_unit = buffer ! 3,
               hdr_sequence = le_value (take 4 (drop 4 buffer))\<rparr>"
    by (simp add: read_header_def declared_def)
  have "0 \<le> uint declared"
    by simp
  then have zero: "declared = 0 \<longleftrightarrow> uint declared < 1"
    using uint_0_iff [of declared] by linarith
  show ?thesis
    using False no_overflow zero
    by (auto simp: validate_packet_def header Let_def MAX_BUF_def)
qed

theorem validate_packet_accepts_iff_witness:
  "8 \<le> length [44, 1, 0, 0, 0, 0, 0, 0 :: u8] \<and> (8::int) + 100 \<le> INT_MAX
   \<and> uint (le_value (take 2 [44, 1, 0, 0, 0, 0, 0, 0]) :: u16) = 300
   \<and> validate_packet [44, 1, 0, 0, 0, 0, 0, 0] 8 = Some False
   \<and> 8 \<le> length (44 # 1 # replicate 198 (0::u8)) \<and> (200::int) + 100 \<le> INT_MAX
   \<and> validate_packet (44 # 1 # replicate 198 0) 200 = Some True
   \<and> (le_value (take 2 [0, 0, 0, 0, 0, 0, 0, 0]) :: u16) = 0
   \<and> validate_packet [0, 0, 0, 0, 0, 0, 0, 0] 8 = Some False"
  using validate_packet_accepts_iff [of 8 "[44, 1, 0, 0, 0, 0, 0, 0]"]
        validate_packet_accepts_iff [of 200 "44 # 1 # replicate 198 0"]
        validate_packet_accepts_iff [of 8 "[0, 0, 0, 0, 0, 0, 0, 0]"]
  by (simp add: INT_MAX_def)

section \<open>Statistics of the packet processor\<close>

lemma count_order_status_keeps:
  "total_packets (count_order_status os st) = total_packets st"
  "heartbeats_skipped (count_order_status os st) = heartbeats_skipped st"
  "data_packets (count_order_status os st) = data_packets st"
  "admin_packets (count_order_status os st) = admin_packets st"
  "unsequenced_packets (count_order_status os st) = unsequenced_packets st"
  by (cases os; simp)+

lemma count_packet_type_keeps:
  "total_packets (count_packet_type pt st) = total_packets st"
  "heartbeats_skipped (count_packet_type pt st) = heartbeats_skipped st"
  by (cases pt; simp)+

lemma count_packet_type_sum:
  "pt \<noteq> HEARTBEAT \<Longrightarrow>
   data_packets (count_packet_type pt st) + admin_packets (count_packet_type pt st)
     + unsequenced_packets (count_packet_type pt st)
   = data_packets st + admin_packets st + unsequenced_packets st + 1"
  by (cases pt) simp_all

lemma report_flush_keep_stats:
  "pp_stats (print_performance_report pp) = pp_stats pp"
  "pp_stats (flush_logs pp) = pp_stats pp"
  by (simp_all add: print_performance_report_def flush_logs_def)

text \<open>A rejected packet is counted in \<open>total_packets\<close> and nowhere else.\<close>

lemma process_packet_invalid:
  assumes "validate_packet (pkt_buffer p) (pkt_len p) = Some False"
  shows "process_packet p pp =
     Some (pp\<lparr>pp_stats := (pp_stats pp)\<lparr>total_packets := total_packets (pp_stats pp) + 1\<rparr>,
              pp_logger := log_warning (InvalidPacketWarning (pkt_id p)) (pp_logger pp)\<rparr>)"
  using assms by (simp add: process_packet_def Let_def)

text \<open>An accepted packet is counted once more in exactly one of the four other counters.\<close>

lemma process_packet_valid_stats:
  assumes "process_packet p pp = Some pp'"
      and "validate_packet (pkt_buffer p) (pkt_len p) \<noteq> Some False"
  shows "total_packets (pp_stats pp') = total_packets (pp_stats pp) + 1
       \<and> data_packets (pp_stats pp') + admin_packets (pp_stats pp')
           + unsequenced_packets (pp_stats pp') + heartbeats_skipped (pp_stats pp')
         = data_packets (pp_stats pp) + admin_packets (pp_stats pp)
           + unsequenced_packets (pp_stats pp) + heartbeats_skipped (pp_stats pp) + 1"
proof -
  from assms obtain header where
    valid: "validate_packet (pkt_buffer p) (pkt_len p) = Some True" and
    header: "read_header (pkt_buffer p) = Some header"
    by (auto simp: process_packet_def Let_def split: option.splits if_splits)
  define pt where
    "pt = classify_packet_type (hdr_sequence header) (hdr_count header) (pkt_len p)"
  show ?thesis
  proof (cases "pt = HEARTBEAT")
    case True
    with assms(1) valid header show ?thesis
      by (auto simp: process_packet_def Let_def SKIP_HEARTBEATS_def pt_def)
  next
    case False
    with assms(1) valid header show ?thesis
      by (auto simp: process_packet_def Let_def pt_def report_flush_keep_stats
            count_order_status_keeps count_packet_type_keeps count_packet_type_sum
          split: option.splits if_splits)
  qed
qed

lemma process_packets_stats:
  "process_packets ps pp = Some pp' \<Longrightarrow>
   total_packets (pp_stats pp') = total_packets (pp_stats pp) + of_nat (length ps)
   \<and> data_packets (pp_stats pp') + admin_packets (pp_stats pp')
       + unsequenced_packets (pp_stats pp') + heartbeats_skipped (pp_stats pp')
       + of_nat (invalid_packets ps)
     = data_packets (pp_stats pp) + admin_packets (pp_stats pp)
       + unsequenced_packets (pp_stats pp) + heartbeats_skipped (pp_stats pp)
       + of_nat (length ps)"
proof (induction ps arbitrary: pp)
  case Nil
  then show ?case by (simp add: invalid_packets_def)
next
  case (Cons p ps)
  from Cons.prems obtain mid where
    step: "process_packet p pp = Some mid" and rest: "process_packets ps mid = Some pp'"
    by (auto split: option.splits)
  note ih = Cons.IH [OF rest]
  show ?case
  proof (cases "validate_packet (pkt_buffer p) (pkt_len p) = Some False")
    case True
    then have "pp_stats mid = (pp_stats pp)\<lparr>total_packets := total_packets (pp_stats pp) + 1\<rparr>"
      using step process_packet_invalid [OF True, of pp] by auto
    moreover have "invalid_packets (p # ps) = Suc (invalid_packets ps)"
      using True by (simp add: invalid_packets_def)
    ultimately show ?thesis using ih by (simp add: algebra_simps)
  next
    case False
    then have "invalid_packets (p # ps) = invalid_packets ps"
      by (simp add: invalid_packets_def)
    then show ?thesis
      using ih process_packet_valid_stats [OF step False] by (simp add: algebra_simps)
  qed
qed

text \<open>
  Claim C9: with heartbeat filtering as compiled (\<open>SKIP_HEARTBEATS = true\<close>), after every
  call to \<open>process_packet\<close> the statistics satisfy
  \<open>data_packets + admin_packets + unsequenced_packets
    = total_packets - invalid - heartbeats_skipped\<close>,
  where \<open>invalid\<close> is the number of packets that \<open>validate_packet\<close> rejected. The
  counters are \<open>uint64_t\<close> and so is the arithmetic. The state after every call is the
  state after a list of packets, from the constructed processor.
\<close>

theorem statistics_balance:
  assumes "process_packets ps new_processor = Some pp"
  shows "data_packets (pp_stats pp) + admin_packets (pp_stats pp)
           + unsequenced_packets (pp_stats pp)
         = total_packets (pp_stats pp) - of_nat (invalid_packets ps)
           - heartbeats_skipped (pp_stats pp)"
proof -
  let ?typed = "data_packets (pp_stats pp) + admin_packets (pp_stats pp)
                  + unsequenced_packets (pp_stats pp)"
  from process_packets_stats [OF assms]
  have total: "total_packets (pp_stats pp) = of_nat (length ps)"
    and sum: "?typed + heartbeats_skipped (pp_stats pp) + of_nat (invalid_packets ps)
              = of_nat (length ps)"
    by (simp_all add: new_processor_def)
  have "total_packets (pp_stats pp) - of_nat (invalid_packets ps)
          - heartbeats_skipped (pp_stats pp)
        = (?typed + heartbeats_skipped (pp_stats pp) + of_nat (invalid_packets ps))
          - of_nat (invalid_packets ps) - heartbeats_skipped (pp_stats pp)"
    using total sum by simp
  also have "\<dots> = ?typed"
    by simp
  finally show ?thesis by simp
qed

lemmas processor_defs =
  process_packet_def validate_packet_def read_header_def MAX_BUF_def INT_MAX_def
  classify_packet_type_def SKIP_HEARTBEATS_def log_packet_def log_warning_def
  should_report_statistics_def STATS_INTERVAL_def FLUSH_INTERVAL_def new_processor_def

text \<open>A rejected packet, a skipped heartbeat and a data packet: \<open>1 + 0 + 0 = 3 - 1 - 1\<close>.\<close>

theorem statistics_balance_witness:
  "map_option pp_stats
     (process_packets
        [\<lparr>pkt_id = 1, pkt_port = 30501, pkt_buffer = [0, 0, 0, 0, 0, 0, 0, 0],
          pkt_len = 8, pkt_src_ip = 0, pkt_now = 1000\<rparr>,
         \<lparr>pkt_id = 2, pkt_port = 30501, pkt_buffer = [8, 0, 0, 1, 0, 0, 0, 0],
          pkt_len = 8, pkt_src_ip = 0, pkt_now = 2000\<rparr>,
         \<lparr>pkt_id = 3, pkt_port = 30501,
          pkt_buffer = [12, 0, 1, 1, 10, 0, 0, 0, 1, 2, 3, 4],
          pkt_len = 12, pkt_src_ip = 0, pkt_now = 3000\<rparr>]
        new_processor)
   = Some \<lparr>total_packets = 3, heartbeats_skipped = 1, data_packets = 1, admin_packets = 0,
            unsequenced_packets = 0, out_of_order_packets = 0, duplicate_packets = 0\<rparr>
   \<and> invalid_packets
        [\<lparr>pkt_id = 1, pkt_port = 30501, pkt_buffer = [0, 0, 0, 0, 0, 0, 0, 0],
          pkt_len = 8, pkt_src_ip = 0, pkt_now = 1000\<rparr>,
         \<lparr>pkt_id = 2, pkt_port = 30501, pkt_buffer = [8, 0, 0, 1, 0, 0, 0, 0],
          pkt_len = 8, pkt_src_ip = 0, pkt_now = 2000\<rparr>,
         \<lparr>pkt_id = 3, pkt_port = 30501,
          pkt_buffer = [12, 0, 1, 1, 10, 0, 0, 0, 1, 2, 3, 4],
          pkt_len = 12, pkt_src_ip = 0, pkt_now = 3000\<rparr>] = 1
   \<and> (1::u64) + 0 + 0 = 3 - of_nat 1 - 1"
proof -
  let ?ps = "[\<lparr>pkt_id = 1, pkt_port = 30501, pkt_buffer = [0, 0, 0, 0, 0, 0, 0, 0],
          pkt_len = 8, pkt_src_ip = 0, pkt_now = 1000\<rparr>,
         \<lparr>pkt_id = 2, pkt_port = 30501, pkt_buffer = [8, 0, 0, 1, 0, 0, 0, 0],
          pkt_len = 8, pkt_src_ip = 0, pkt_now = 2000\<rparr>,
         \<lparr>pkt_id = 3, pkt_port = 30501,
          pkt_buffer = [12, 0, 1, 1, 10, 0, 0, 0, 1, 2, 3, 4],
          pkt_len = 12, pkt_src_ip = 0, pkt_now = 3000\<rparr>]"
  have "\<exists>pp. process_packets ?ps new_processor = Some pp
          \<and> pp_stats pp = \<lparr>total_packets = 3, heartbeats_skipped = 1, data_packets = 1, admin_packets = 0,
            unsequenced_packets = 0, out_of_order_packets = 0, duplicate_packets = 0\<rparr>"
    by (simp add: processor_defs tracker_defs Let_def)
  then obtain pp where run: "process_packets ?ps new_processor = Some pp"
    and stats: "pp_stats pp = \<lparr>total_packets = 3, heartbeats_skipped = 1, data_packets = 1, admin_packets = 0,
            unsequenced_packets = 0, out_of_order_packets = 0, duplicate_packets = 0\<rparr>"
    by blast
  have invalid: "invalid_packets ?ps = 1"
    by (simp add: invalid_packets_def processor_defs)
  from statistics_balance [OF run] show ?thesis
    using run stats invalid by simp
qed

section \<open>The journal entry of a packet\<close>

lemma length_le_bytes: "length (le_bytes n w) = n"
  by (induction n arbitrary: w) simp_all

lemma length_record_bytes: "length (record_bytes r) = 30"
  by (simp add: record_bytes_def length_le_bytes)

text \<open>The offsets of the fields in the packed record.\<close>

lemma record_bytes_layout:
  "take 8 (record_bytes r) = le_bytes 8 (rec_timestamp_ns r)"
  "take 4 (drop 8 (record_bytes r)) = le_bytes 4 (rec_packet_id r)"
  "take 4 (drop 12 (record_bytes r)) = le_bytes 4 (rec_sequence r)"
  "take 4 (drop 16 (record_bytes r)) = le_bytes 4 (rec_src_ip r)"
  "take 2 (drop 20 (record_bytes r)) = le_bytes 2 (rec_port r)"
  "take 2 (drop 22 (record_bytes r)) = le_bytes 2 (rec_length r)"
  "record_bytes r ! 24 = rec_count r"
  "record_bytes r ! 25 = rec_unit r"
  "record_bytes r ! 26 = rec_packet_type r"
  "record_bytes r ! 27 = rec_order_status r"
  "drop 28 (record_bytes r) = le_bytes 2 (rec_payload_length r)"
  by (simp_all add: record_bytes_def length_le_bytes nth_append)

lemma unat_min_256: "unat (min (len::u16) 256) = min (unat len) 256"
  by (simp add: min_def word_le_nat_alt)

lemma le_bytes_numeral:
  "le_bytes (numeral k) w = ucast w # le_bytes (pred_numeral k) (drop_bit 8 w)"
  by (simp add: numeral_eq_Suc)

text \<open>
  \<open>le_bytes\<close> and \<open>le_value\<close> are the two directions of the same byte order: reading
  the stored bytes of a field back gives the field.
\<close>

lemma le_value_le_bytes: "(le_value (le_bytes n w) :: 'a::len word) = take_bit (8 * n) w"
proof (induction n arbitrary: w)
  case 0
  then show ?case by simp
next
  case (Suc n)
  have "(le_value (le_bytes (Suc n) w) :: 'a word)
        = ucast (ucast w :: u8) OR push_bit 8 (take_bit (8 * n) (drop_bit 8 w))"
    by (simp add: Suc.IH)
  also have "\<dots> = take_bit (8 * Suc n) w"
    by (rule bit_word_eqI) (auto simp: bit_simps)
  finally show ?case .
qed

lemma le_value_le_bytes_u16: "le_value (le_bytes 2 w) = (w::u16)"
  by (simp add: le_value_le_bytes take_bit_word_eq_self)

lemma le_value_le_bytes_u32: "le_value (le_bytes 4 w) = (w::u32)"
  by (simp add: le_value_le_bytes take_bit_word_eq_self)

lemma le_value_le_bytes_u64: "le_value (le_bytes 8 w) = (w::u64)"
  by (simp add: le_value_le_bytes take_bit_word_eq_self)

text \<open>
  Claim C10: every call to \<open>log_packet\<close> produces exactly one journal entry: the packed
  30-byte \<open>BinaryLogRecord\<close> header, fields in the specified order (timestamp at offset
  0, packet id at 8, sequence at 12, source address at 16, port at 20, length at 22,
  count at 24, unit at 25, packet type at 26, order status at 27, payload length at
  28), followed by exactly \<open>payload_length = min(len, 256)\<close> bytes from the start of the
  packet. The buffer holds the bytes that are copied.
\<close>

theorem log_packet_entry:
  fixes len :: u16
  defines "n \<equiv> min (unat len) 256"
  assumes "n \<le> length buffer"
  shows "\<exists>header.
      log_packet now packet_id port buffer len sequence count unit packet_type order_status
        src_ip logger
      = Some (logger\<lparr>binary_entries := binary_entries logger @ [header @ take n buffer]\<rparr>)
    \<and> length header = 30
    \<and> length (take n buffer) = n
    \<and> take 8 header = le_bytes 8 now
    \<and> take 4 (drop 8 header) = le_bytes 4 packet_id
    \<and> take 4 (drop 12 header) = le_bytes 4 sequence
    \<and> take 4 (drop 16 header) = le_bytes 4 src_ip
    \<and> take 2 (drop 20 header) = le_bytes 2 port
    \<and> take 2 (drop 22 header) = le_bytes 2 len
    \<and> header ! 24 = count
    \<and> header ! 25 = unit
    \<and> header ! 26 = packet_type_code packet_type
    \<and> header ! 27 = order_status_code order_status
    \<and> drop 28 header = le_bytes 2 (word_of_nat n :: u16)"
proof -
  define r where "r = \<lparr>rec_timestamp_ns = now, rec_packet_id = packet_id,
      rec_sequence = sequence, rec_src_ip = src_ip, rec_port = port, rec_length = len,
      rec_count = count, rec_unit = unit, rec_packet_type = packet_type_code packet_type,
      rec_order_status = order_status_code order_status,
      rec_payload_length = min len 256\<rparr>"
  have n: "unat (min len 256) = n"
    by (simp add: n_def unat_min_256)
  have wn: "(word_of_nat n :: u16) = min len 256"
    unfolding n [symmetric] by simp
  have fits: "n \<le> length buffer"
    using assms(2) .
  have "log_packet now packet_id port buffer len sequence count unit packet_type order_status
          src_ip logger
        = Some (logger\<lparr>binary_entries := binary_entries logger
                   @ [record_bytes r @ take n buffer]\<rparr>)"
    using fits n by (simp add: log_packet_def Let_def r_def)
  moreover have "length (take n buffer) = n"
    using fits by simp
  ultimately show ?thesis
    using length_record_bytes [of r] record_bytes_layout [of r] wn
    by (intro exI [of _ "record_bytes r"]) (simp add: r_def)
qed

text \<open>
  A 12-byte data packet gives a 42-byte entry; a 300-byte packet is cut to its first
  256 bytes, with \<open>length = 300\<close> and \<open>payload_length = 256\<close> in the header.
\<close>

theorem log_packet_entry_witness:
  "min (unat (12::u16)) 256 \<le> length [12, 0, 1, 1, 10, 0, 0, 0, 1, 2, 3, 4 :: u8]
   \<and> map_option binary_entries
        (log_packet 3000 3 30501 [12, 0, 1, 1, 10, 0, 0, 0, 1, 2, 3, 4] 12 10 1 1
           DATA SEQUENCED_FIRST 0x0100007F
           \<lparr>binary_entries = [], console_lines = [], flush_requests = 0\<rparr>)
       = Some [[184, 11, 0, 0, 0, 0, 0, 0, 3, 0, 0, 0, 10, 0, 0, 0, 127, 0, 0, 1,
                37, 119, 12, 0, 1, 1, 3, 1, 12, 0]
               @ [12, 0, 1, 1, 10, 0, 0, 0, 1, 2, 3, 4]]
   \<and> min (unat (300::u16)) 256 \<le> length (replicate 300 (7::u8))
   \<and> map_option binary_entries
        (log_packet 3000 4 30502 (replicate 300 7) 300 0 2 1
           UNSEQUENCED ORDER_UNSEQUENCED 0
           \<lparr>binary_entries = [], console_lines = [], flush_requests = 0\<rparr>)
       = Some [[184, 11, 0, 0, 0, 0, 0, 0, 4, 0, 0, 0, 0, 0, 0, 0, 0, 0, 0, 0,
                38, 119, 44, 1, 2, 1, 2, 0, 0, 1]
               @ replicate 256 7]"
  using log_packet_entry
          [where len = 12 and buffer = "[12, 0, 1, 1, 10, 0, 0, 0, 1, 2, 3, 4]"
             and now = 3000 and packet_id = 3 and port = 30501 and sequence = 10
             and count = 1 and unit = 1 and packet_type = DATA
             and order_status = SEQUENCED_FIRST and src_ip = "0x0100007F"
             and logger = "\<lparr>binary_entries = [], console_lines = [], flush_requests = 0\<rparr>"]
        log_packet_entry
          [where len = 300 and buffer = "replicate 300 7"
             and now = 3000 and packet_id = 4 and port = 30502 and sequence = 0
             and count = 2 and unit = 1 and packet_type = UNSEQUENCED
             and order_status = ORDER_UNSEQUENCED and src_ip = 0
             and logger = "\<lparr>binary_entries = [], console_lines = [], flush_requests = 0\<rparr>"]
  by (simp add: log_packet_def Let_def record_bytes_def le_bytes_numeral drop_bit_eq_div)

end
